theory Spec2Isabelle
  imports Main "HOL-Library.Word"
begin

section \<open>JavaScript values\<close>

text \<open>
  A JavaScript string is a sequence of UTF-16 code units; \<open>length\<close> counts code units,
  as \<^verbatim>\<open>pattern.length\<close> does. \<open>js\<close> writes an ASCII literal.
\<close>

type_synonym jsstring = "16 word list"

definition js :: "string \<Rightarrow> jsstring" where
  "js s = map (\<lambda>c. of_nat (of_char c)) s"

text \<open>
  \<^verbatim>\<open>String.prototype.trim\<close> removes WhiteSpace and LineTerminator code points from both
  ends (ECMAScript: TAB, VT, FF, SP, NBSP, ZWNBSP, the category Zs, LF, CR, LS, PS).
\<close>

definition isWhiteSpace :: "16 word \<Rightarrow> bool" where
  "isWhiteSpace c =
     (c \<in> set [0x09, 0x0A, 0x0B, 0x0C, 0x0D, 0x20, 0xA0, 0x1680,
                0x2028, 0x2029, 0x202F, 0x205F, 0x3000, 0xFEFF]
      \<or> (0x2000 \<le> c \<and> c \<le> 0x200A))"

definition trim :: "jsstring \<Rightarrow> jsstring" where
  "trim s = rev (dropWhile isWhiteSpace (rev (dropWhile isWhiteSpace s)))"

text \<open>
  \<^verbatim>\<open>xs[i]\<close> is \<^verbatim>\<open>undefined\<close> outside the array; reading a property of
  \<^verbatim>\<open>undefined\<close> or \<^verbatim>\<open>null\<close> throws a TypeError. CodeMirror's
  \<^verbatim>\<open>doc.line(n)\<close> throws a RangeError for a line number outside the document.
\<close>

datatype error = TypeError | RangeError

definition js_nth :: "'a list \<Rightarrow> int \<Rightarrow> 'a option" where
  "js_nth xs i = (if 0 \<le> i \<and> i < int (length xs) then Some (xs ! nat i) else None)"

text \<open>\<^verbatim>\<open>null\<close> is 0 in arithmetic: \<^verbatim>\<open>null + 1\<close> is 1.\<close>

definition ToNumber :: "int option \<Rightarrow> int" where
  "ToNumber v = (case v of None \<Rightarrow> 0 | Some n \<Rightarrow> n)"

section \<open>The search session\<close>

type_synonym fileId = jsstring

datatype visibility = Open | Flattened | Closed

record SearchMatch =
  line :: int
  index :: int
  text' :: jsstring

record SearchFile =
  name :: jsstring
  matches :: "SearchMatch list"
  visibility :: visibility

text \<open>
  \<open>results\<close> is a JavaScript object keyed by file id; the list holds its entries in the
  order \<^verbatim>\<open>Object.entries\<close> yields them. \<^verbatim>\<open>null\<close> is \<open>None\<close>.
\<close>

record search =
  pattern :: jsstring
  results :: "(fileId \<times> SearchFile) list"
  focusedIndex :: "int option"
  focusedChildIndex :: "int option"
  focused :: bool

text \<open>
  \<^verbatim>\<open>const files = Object.entries(results).filter(([_, file]) => file.visibility !== 'closed')\<close>
\<close>

definition files :: "search \<Rightarrow> (fileId \<times> SearchFile) list" where
  "files s = filter (\<lambda>(_, file). visibility file \<noteq> Closed) (results s)"

section \<open>jumpToPattern\<close>

text \<open>
  The editor's document is its list of lines. \<^verbatim>\<open>doc.line(n).from\<close> is the offset of
  the first character of the 1-based line \<open>n\<close>: every earlier line counts its length and
  one line break.
\<close>

record EditorView =
  doc :: "jsstring list"

definition line_from :: "jsstring list \<Rightarrow> int \<Rightarrow> error + int" where
  "line_from d n =
     (if n < 1 \<or> int (length d) < n then Inl RangeError
      else Inr (sum_list (map (\<lambda>l. int (length l) + 1) (take (nat (n - 1)) d))))"

record selection =
  anchor :: int
  head :: int

datatype y_strategy = YNearest | YStart | YEnd | YCenter

datatype state_effect = ScrollIntoViewEffect int y_strategy

record TransactionSpec =
  selection :: selection
  scrollIntoView :: bool
  effects :: state_effect

text \<open>The text of a document: its lines, a line break (U+000A) between two of them.\<close>

fun doc_text :: "jsstring list \<Rightarrow> jsstring" where
  "doc_text [] = []"
| "doc_text [l] = l"
| "doc_text (l # ls) = l @ 0x0A # doc_text ls"

text \<open>
  \<^verbatim>\<open>editor.dispatch\<close> builds a transaction from what it is given, and CodeMirror
  refuses a transaction whose selection ends beyond the document: it throws a RangeError
  ("Selection points outside of document") and the editor is left as it was. Otherwise
  the editor takes the transaction: the value is the transaction taken.
\<close>

definition dispatch :: "EditorView \<Rightarrow> TransactionSpec \<Rightarrow> error + TransactionSpec" where
  "dispatch editor tr =
     (if max (anchor (selection tr)) (head (selection tr)) > int (length (doc_text (doc editor)))
      then Inl RangeError
      else Inr tr)"

text \<open>
  \<open>jumpToPattern\<close>: the exception that ends the call (\<^verbatim>\<open>doc.line\<close> or
  \<^verbatim>\<open>dispatch\<close> throws), or the transaction the editor has taken.
\<close>

definition jumpToPattern :: "EditorView \<Rightarrow> jsstring \<Rightarrow> int \<Rightarrow> int \<Rightarrow> error + TransactionSpec" where
  "jumpToPattern editor pat ln idx =
     (case line_from (doc editor) ln of
        Inl e \<Rightarrow> Inl e
      | Inr from \<Rightarrow>
          let position = from + idx in
          dispatch editor
            \<lparr>selection = \<lparr>anchor = position, head = position + int (length pat)\<rparr>,
             scrollIntoView = True,
             effects = ScrollIntoViewEffect position YCenter\<rparr>)"

section \<open>The results list in the page\<close>

text \<open>
  The elements the handler looks up: the scroll container
  (\<^verbatim>\<open>"sidebar-view-container"\<close>), a file heading (id \<^verbatim>\<open>fileId\<close>) and a match line
  (id \<^verbatim>\<open>fileId + "-" + line\<close>). \<^verbatim>\<open>getElementById\<close> is \<^verbatim>\<open>null\<close> (\<open>None\<close>) for an
  element that is not rendered.
\<close>

record element =
  scrollTop :: int
  clientHeight :: int
  offsetTop :: int

datatype dom_id = SidebarViewContainer | FileElement fileId | LineElement fileId int

definition isResultElementWithinView :: "element \<Rightarrow> element option \<Rightarrow> error + bool" where
  "isResultElementWithinView container el =
     (case el of
        None \<Rightarrow> Inl TypeError
      | Some e \<Rightarrow>
          let containerTop = scrollTop container;
              containerBottom = containerTop + clientHeight container;
              elementTop = offsetTop e - offsetTop container;
              elementBottom = elementTop + clientHeight e
          in Inr (elementTop \<ge> containerTop \<and> elementBottom \<le> containerBottom))"

section \<open>The keyboard handler\<close>

text \<open>
  What a run of the handler does, in order: the calls it makes on the event, on the
  context (\<^verbatim>\<open>setSearchFocusedIndex\<close>, \<^verbatim>\<open>setSearchFileVisibility\<close>,
  \<^verbatim>\<open>setActiveFileId\<close>), on an editor (\<^verbatim>\<open>dispatch\<close>) and on an element of the
  page (\<^verbatim>\<open>scrollIntoView({ block: "center" })\<close>).
\<close>

datatype effect =
    PreventDefault
  | SetSearchFocusedIndex "int option" "int option"
  | SetSearchFileVisibility fileId visibility "jsstring option"
  | SetActiveFileId fileId
  | EditorDispatch fileId TransactionSpec
  | ElementScrollIntoView dom_id

datatype key = Tab | ArrowUp | ArrowDown | ArrowLeft | ArrowRight | Enter | Space | OtherKey

definition flattenResult :: "fileId \<Rightarrow> SearchFile \<Rightarrow> effect" where
  "flattenResult fileId file =
     SetSearchFileVisibility fileId
       (if visibility file = Open then Flattened else Open)
       (Some (name file))"

definition closeResult :: "fileId \<Rightarrow> effect" where
  "closeResult fileId = SetSearchFileVisibility fileId Closed None"

text \<open>The \<^verbatim>\<open>Enter\<close> and \<^verbatim>\<open>' '\<close> case of the \<^verbatim>\<open>switch\<close>.\<close>

definition activate ::
  "(fileId \<Rightarrow> EditorView option) \<Rightarrow> search \<Rightarrow> fileId \<Rightarrow> SearchFile
     \<Rightarrow> effect list \<times> error option" where
  "activate editorCache s fileId file =
     (case focusedChildIndex s of
        None \<Rightarrow> ([SetActiveFileId fileId], None)
      | Some c \<Rightarrow>
          (case js_nth (matches file) c of
             None \<Rightarrow> ([SetActiveFileId fileId], Some TypeError)
           | Some m \<Rightarrow>
               (case editorCache fileId of
                  None \<Rightarrow> ([SetActiveFileId fileId], None)
                | Some editor \<Rightarrow>
                    (case jumpToPattern editor (pattern s) (line m) (index m) of
                       Inl e \<Rightarrow> ([SetActiveFileId fileId], Some e)
                     | Inr tr \<Rightarrow> ([SetActiveFileId fileId, EditorDispatch fileId tr], None)))))"

text \<open>
  The \<^verbatim>\<open>switch\<close> of \<^verbatim>\<open>handleKeyDown\<close>, entered with \<open>files[focusedIndex]\<close> read
  (\<open>fi\<close>, \<open>fileId\<close>, \<open>file\<close>). The value is the calls made and the exception that ended
  the run, if one did. \<open>editorCache\<close> maps a file id to its editor.
\<close>

definition key_switch ::
  "(fileId \<Rightarrow> EditorView option) \<Rightarrow> search \<Rightarrow> int \<Rightarrow> fileId \<Rightarrow> SearchFile \<Rightarrow> key
     \<Rightarrow> effect list \<times> error option" where
  "key_switch editorCache s fi fileId file k =
     (let ci = focusedChildIndex s;
          matchingLines = int (length (matches file))
      in case k of
        Tab \<Rightarrow> ([SetSearchFocusedIndex (Some fi) None], None)
      | ArrowUp \<Rightarrow>
          if fi = 0 \<and> ci = None then ([], None)
          else (case ci of
            None \<Rightarrow>
              (case js_nth (files s) (fi - 1) of
                 None \<Rightarrow> ([], Some TypeError)
               | Some (_, previous) \<Rightarrow>
                   let previousMatchingLines = int (length (matches previous)) in
                   if previousMatchingLines > 0
                   then ([SetSearchFocusedIndex (Some (fi - 1)) (Some (previousMatchingLines - 1))], None)
                   else ([SetSearchFocusedIndex (Some (fi - 1)) None], None))
          | Some c \<Rightarrow>
              if c = 0 then ([SetSearchFocusedIndex (Some fi) None], None)
              else ([SetSearchFocusedIndex (Some fi) (Some (c - 1))], None))
      | ArrowDown \<Rightarrow>
          if fi = int (length (files s)) - 1 \<and> ci = Some (matchingLines - 1) then ([], None)
          else if ci = None \<and> matchingLines > 0
          then ([SetSearchFocusedIndex (Some fi) (Some 0)], None)
          else if ci = Some (matchingLines - 1)
          then ([SetSearchFocusedIndex (Some (fi + 1)) None], None)
          else ([SetSearchFocusedIndex (Some fi) (Some (ToNumber ci + 1))], None)
      | ArrowLeft \<Rightarrow>
          if ci \<noteq> None then ([SetSearchFocusedIndex (Some fi) None], None)
          else ([flattenResult fileId file], None)
      | ArrowRight \<Rightarrow>
          if visibility file \<noteq> Open then ([flattenResult fileId file], None)
          else if ci = None then ([SetSearchFocusedIndex (Some fi) (Some 0)], None)
          else ([], None)
      | Enter \<Rightarrow> activate editorCache s fileId file
      | Space \<Rightarrow> activate editorCache s fileId file
      | OtherKey \<Rightarrow> ([], None))"

text \<open>
  After the \<^verbatim>\<open>switch\<close>: keep the focused element (the focus the handler was entered
  with) within the container's view.
\<close>

definition scroll_unless_within_view ::
  "(dom_id \<Rightarrow> element option) \<Rightarrow> element \<Rightarrow> dom_id \<Rightarrow> effect list \<times> error option" where
  "scroll_unless_within_view document container i =
     (case isResultElementWithinView container (document i) of
        Inl e \<Rightarrow> ([], Some e)
      | Inr within \<Rightarrow> if \<not> within then ([ElementScrollIntoView i], None) else ([], None))"

definition viewport_sync ::
  "(dom_id \<Rightarrow> element option) \<Rightarrow> search \<Rightarrow> fileId \<Rightarrow> SearchFile
     \<Rightarrow> effect list \<times> error option" where
  "viewport_sync document s fileId file =
     (case document SidebarViewContainer of
        None \<Rightarrow> ([], None)
      | Some container \<Rightarrow>
          (case focusedChildIndex s of
             None \<Rightarrow> scroll_unless_within_view document container (FileElement fileId)
           | Some c \<Rightarrow>
               (case js_nth (matches file) c of
                  None \<Rightarrow> ([], Some TypeError)
                | Some m \<Rightarrow>
                    scroll_unless_within_view document container (LineElement fileId (line m)))))"

definition handleKeyDown ::
  "(fileId \<Rightarrow> EditorView option) \<Rightarrow> (dom_id \<Rightarrow> element option) \<Rightarrow> search \<Rightarrow> key
     \<Rightarrow> effect list \<times> error option" where
  "handleKeyDown editorCache document s k =
     (case focusedIndex s of
        None \<Rightarrow> ([PreventDefault], Some TypeError)
      | Some fi \<Rightarrow>
          (case js_nth (files s) fi of
             None \<Rightarrow> ([PreventDefault], Some TypeError)
           | Some (fileId, file) \<Rightarrow>
               (case key_switch editorCache s fi fileId file k of
                  (effs, Some e) \<Rightarrow> (PreventDefault # effs, Some e)
                | (effs, None) \<Rightarrow>
                    (case viewport_sync document s fileId file of
                       (effs', err) \<Rightarrow> (PreventDefault # effs @ effs', err)))))"

section \<open>The session state\<close>

text \<open>
  Modelled from the spec: the context function \<^verbatim>\<open>setSearchFocusedIndex\<close>, whose reducer
  is not among the sources. It records the focus pair the handler passes (spec 3: the
  focus "is mutated by every navigation and pointer-activation action"; spec 4.3 writes
  each transition as an assignment to the pair).
\<close>

definition setSearchFocusedIndex :: "int option \<Rightarrow> int option \<Rightarrow> search \<Rightarrow> search" where
  "setSearchFocusedIndex i c s = s\<lparr>focusedIndex := i, focusedChildIndex := c\<rparr>"

text \<open>The focus points at the file \<open>fileId\<close>: it is the visible file at \<open>focusedIndex\<close>.\<close>

definition focus_points_at :: "search \<Rightarrow> fileId \<Rightarrow> bool" where
  "focus_points_at s fileId =
     (case focusedIndex s of
        None \<Rightarrow> False
      | Some i \<Rightarrow> (case js_nth (files s) i of None \<Rightarrow> False | Some (k, _) \<Rightarrow> k = fileId))"

text \<open>
  Modelled from the spec: the context function \<^verbatim>\<open>setSearchFileVisibility\<close>, whose reducer
  is not among the sources. Spec 4.2: it writes the file's visibility and keeps its match
  data; "writing \<open>closed\<close> must also clear any focus position currently pointing at that
  file", and spec 8: closing a file that held focus "reassigns focus to the previous file
  (or \<open>none\<close> if it was the first)". The spec says nothing of the focus in the other
  cases: it is left as it was.
\<close>

definition setSearchFileVisibility :: "fileId \<Rightarrow> visibility \<Rightarrow> search \<Rightarrow> search" where
  "setSearchFileVisibility fileId v s =
     (let results' = map (\<lambda>(k, file). if k = fileId then (k, file\<lparr>visibility := v\<rparr>) else (k, file))
                       (results s)
      in if v = Closed \<and> focus_points_at s fileId
         then s\<lparr>results := results',
                focusedIndex := (case focusedIndex s of
                                   None \<Rightarrow> None
                                 | Some i \<Rightarrow> if i = 0 then None else Some (i - 1)),
                focusedChildIndex := None\<rparr>
         else s\<lparr>results := results'\<rparr>)"

text \<open>
  The state the calls act on. \<^verbatim>\<open>setActiveFileId\<close> is the reducer's case
  \<^verbatim>\<open>'set_active_fileId'\<close>: \<^verbatim>\<open>{ ...state, activeFileId: action.activeFileId }\<close>. The
  event, the editors and the page are outside it.
\<close>

record VZState =
  search :: search
  activeFileId :: "fileId option"

fun apply_effect :: "effect \<Rightarrow> VZState \<Rightarrow> VZState" where
  "apply_effect (SetSearchFocusedIndex i c) st = st\<lparr>search := setSearchFocusedIndex i c (search st)\<rparr>"
| "apply_effect (SetSearchFileVisibility fileId v n) st =
     st\<lparr>search := setSearchFileVisibility fileId v (search st)\<rparr>"
| "apply_effect (SetActiveFileId fileId) st = st\<lparr>activeFileId := Some fileId\<rparr>"
| "apply_effect PreventDefault st = st"
| "apply_effect (EditorDispatch fileId tr) st = st"
| "apply_effect (ElementScrollIntoView i) st = st"

text \<open>A key press: the handler runs on the current session, and its calls take effect.\<close>

definition keyDown ::
  "(fileId \<Rightarrow> EditorView option) \<Rightarrow> (dom_id \<Rightarrow> element option) \<Rightarrow> key \<Rightarrow> VZState \<Rightarrow> VZState" where
  "keyDown editorCache document k st =
     fold apply_effect (fst (handleKeyDown editorCache document (search st) k)) st"

text \<open>
  The focus invariant in the spec's words (spec 3): the child index "is non-none only if
  \<open>fileIndex\<close> is non-none and the referenced file has at least one visible match"; with
  it, the child index is a position in that file's matches.
\<close>

definition focus_invariant :: "search \<Rightarrow> bool" where
  "focus_invariant s =
     (case focusedChildIndex s of
        None \<Rightarrow> True
      | Some c \<Rightarrow>
          (case focusedIndex s of
             None \<Rightarrow> False
           | Some i \<Rightarrow>
               (case js_nth (files s) i of
                  None \<Rightarrow> False
                | Some (_, file) \<Rightarrow> 0 \<le> c \<and> c < int (length (matches file)))))"

definition is_visibility_effect :: "effect \<Rightarrow> bool" where
  "is_visibility_effect e = (case e of SetSearchFileVisibility _ _ _ \<Rightarrow> True | _ \<Rightarrow> False)"

definition is_focus_effect :: "effect \<Rightarrow> bool" where
  "is_focus_effect e = (case e of SetSearchFocusedIndex _ _ \<Rightarrow> True | _ \<Rightarrow> False)"

definition is_dispatch_effect :: "effect \<Rightarrow> bool" where
  "is_dispatch_effect e = (case e of EditorDispatch _ _ \<Rightarrow> True | _ \<Rightarrow> False)"

section \<open>The debounced search\<close>

text \<open>
  The state of the component's effect on \<^verbatim>\<open>[pattern]\<close>: the two \<^verbatim>\<open>useState\<close> flags;
  whether \<^verbatim>\<open>inputRef.current\<close> is an element; the pattern in the context; the timeouts
  that are set and have neither fired nor been cleared, each with its id and the pattern
  its callback closed over; the id \<^verbatim>\<open>setTimeout\<close> gives next; the timeout the effect's
  cleanup clears; and the searches run so far, oldest first.
\<close>

record trigger =
  isMounted :: bool
  isSearching :: bool
  inputRef :: bool
  storePattern :: jsstring
  timers :: "(nat \<times> jsstring) list"
  nextTimer :: nat
  cleanup :: "nat option"
  searches :: "jsstring list"

text \<open>The body of the effect, run for the pattern of the current render.\<close>

definition run_effect :: "trigger \<Rightarrow> trigger" where
  "run_effect t =
     (if isMounted t
      then t\<lparr>isSearching := (length (trim (storePattern t)) \<ge> 1),
             timers := timers t @ [(nextTimer t, storePattern t)],
             cleanup := Some (nextTimer t),
             nextTimer := nextTimer t + 1\<rparr>
      else t\<lparr>isMounted := True, cleanup := None\<rparr>)"

text \<open>\<^verbatim>\<open>return () => clearTimeout(delaySearch)\<close>\<close>

definition clearTimeout :: "nat \<Rightarrow> trigger \<Rightarrow> trigger" where
  "clearTimeout i t = t\<lparr>timers := filter (\<lambda>(j, _). j \<noteq> i) (timers t)\<rparr>"

definition run_cleanup :: "trigger \<Rightarrow> trigger" where
  "run_cleanup t = (case cleanup t of None \<Rightarrow> t | Some i \<Rightarrow> (clearTimeout i t)\<lparr>cleanup := None\<rparr>)"

text \<open>
  \<^verbatim>\<open>setSearch(event.target.value)\<close>: the pattern in the context becomes \<open>p\<close>. React runs an
  effect again only when a dependency has changed; then the cleanup of the last run comes
  first.
\<close>

definition setSearch :: "jsstring \<Rightarrow> trigger \<Rightarrow> trigger" where
  "setSearch p t =
     (if p = storePattern t then t
      else run_effect ((run_cleanup t)\<lparr>storePattern := p\<rparr>))"

text \<open>
  The callback of the timeout \<open>i\<close>, when its two seconds are over. Modelled from the spec:
  \<^verbatim>\<open>setSearchResults(shareDBDoc)\<close>, whose reducer is not among the sources, searches for
  the pattern the context holds at that moment (spec 4.1: "invokes the match-producing
  collaborator once with the latest pattern").
\<close>

definition timer_fires :: "nat \<Rightarrow> trigger \<Rightarrow> trigger" where
  "timer_fires i t =
     (case map_of (timers t) i of
        None \<Rightarrow> t
      | Some p \<Rightarrow>
          let t' = clearTimeout i t in
          if length (trim p) \<ge> 1 \<and> inputRef t'
          then t'\<lparr>searches := searches t' @ [storePattern t'], isSearching := False\<rparr>
          else t')"

text \<open>The component after its first render with the pattern \<open>p\<close>, and after its effect has run once.\<close>

definition first_render :: "jsstring \<Rightarrow> trigger" where
  "first_render p =
     \<lparr>isMounted = False, isSearching = False, inputRef = True, storePattern = p,
      timers = [], nextTimer = 0, cleanup = None, searches = []\<rparr>"

definition mount :: "jsstring \<Rightarrow> trigger" where
  "mount p = run_effect (first_render p)"

datatype event = SetSearch jsstring | TimerFires nat

fun step :: "event \<Rightarrow> trigger \<Rightarrow> trigger" where
  "step (SetSearch p) t = setSearch p t"
| "step (TimerFires i) t = timer_fires i t"

definition run :: "event list \<Rightarrow> trigger \<Rightarrow> trigger" where
  "run evs t = fold step evs t"

text \<open>
  What holds of the component in every state it reaches once mounted: the flags are set; at
  most one timeout is outstanding, it is the one the cleanup will clear and its callback
  closed over the current pattern; the component reports a search only for a pattern that
  is not blank; and no search was run for a blank pattern.
\<close>

definition trigger_inv :: "trigger \<Rightarrow> bool" where
  "trigger_inv t =
     (isMounted t \<and> inputRef t \<and>
      (timers t = [] \<or> (\<exists>i. timers t = [(i, storePattern t)] \<and> cleanup t = Some i)) \<and>
      (isSearching t \<longrightarrow> trim (storePattern t) \<noteq> []) \<and>
      (\<forall>q \<in> set (searches t). trim q \<noteq> []))"

section \<open>Example sessions\<close>

text \<open>
  The spec's scenario: the pattern \<open>bar\<close> over \<open>a.ts\<close> with two matches and \<open>b.ts\<close> with
  none, both open, with the focus at \<open>(i, c)\<close>.
\<close>

definition ex_a :: SearchFile where
  "ex_a = \<lparr>name = js ''a.ts'',
           matches = [\<lparr>line = 3, index = 5, text' = js ''foo bar baz''\<rparr>,
                      \<lparr>line = 7, index = 0, text' = js ''bar''\<rparr>],
           visibility = Open\<rparr>"

definition ex_b :: SearchFile where
  "ex_b = \<lparr>name = js ''b.ts'', matches = [], visibility = Open\<rparr>"

definition two_files :: "int option \<Rightarrow> int option \<Rightarrow> VZState" where
  "two_files i c =
     \<lparr>search = \<lparr>pattern = js ''bar'', results = [(js ''1'', ex_a), (js ''2'', ex_b)],
                focusedIndex = i, focusedChildIndex = c, focused = False\<rparr>,
      activeFileId = None\<rparr>"

text \<open>A session whose only result has been closed.\<close>

definition all_closed :: search where
  "all_closed =
     \<lparr>pattern = js ''bar'', results = [(js ''1'', ex_a\<lparr>visibility := Closed\<rparr>)],
      focusedIndex = Some 0, focusedChildIndex = None, focused = False\<rparr>"

text \<open>A session whose only result is flattened, its heading focused.\<close>

definition flattened_file :: search where
  "flattened_file =
     \<lparr>pattern = js ''bar'', results = [(js ''1'', ex_a\<lparr>visibility := Flattened\<rparr>)],
      focusedIndex = Some 0, focusedChildIndex = None, focused = False\<rparr>"

text \<open>No editor is open and the results list is not in the page.\<close>

definition no_editor :: "fileId \<Rightarrow> EditorView option" where
  "no_editor = (\<lambda>_. None)"

definition no_page :: "dom_id \<Rightarrow> element option" where
  "no_page = (\<lambda>_. None)"

section \<open>Properties\<close>

lemmas ex_defs = two_files_def ex_a_def ex_b_def js_def files_def js_nth_def

subsection \<open>A key press changes the session only through the switch\<close>

lemma viewport_sync_no_state:
  "viewport_sync document s fileId file = (effs, err) \<Longrightarrow> fold apply_effect effs st = st"
  by (auto simp: viewport_sync_def scroll_unless_within_view_def
           split: option.splits sum.splits if_splits)

lemma keyDown_search:
  assumes "focusedIndex (search st) = Some fi"
    and "js_nth (files (search st)) fi = Some (fileId, file)"
  shows "keyDown editorCache document k st =
         fold apply_effect (fst (key_switch editorCache (search st) fi fileId file k)) st"
  using assms
  by (simp add: keyDown_def handleKeyDown_def viewport_sync_no_state split: prod.splits option.splits)

subsection \<open>No visible file\<close>

text \<open>
  C1: with no visible file, the handler should do nothing and should not fault. The code
  reads \<open>files[focusedIndex][1]\<close> before it looks at the key: whatever the key and the
  focus, the run ends in a TypeError after \<open>event.preventDefault()\<close>, with no call on the
  context.
\<close>

theorem handleKeyDown_no_visible_files:
  "files s = [] \<Longrightarrow> handleKeyDown editorCache document s k = ([PreventDefault], Some TypeError)"
  by (auto simp: handleKeyDown_def js_nth_def split: option.splits)

theorem handleKeyDown_no_visible_files_witness:
  "files all_closed = [] \<and>
   handleKeyDown (\<lambda>_. None) (\<lambda>_. None) all_closed ArrowDown = ([PreventDefault], Some TypeError)"
  using handleKeyDown_no_visible_files [of all_closed "\<lambda>_. None" "\<lambda>_. None" ArrowDown]
  by (simp add: files_def all_closed_def ex_a_def)

subsection \<open>The focus invariant\<close>

text \<open>
  C2: the focus invariant should hold after every transition. On the heading of an open
  file with no match, ArrowRight sets the child index to 0 and ArrowDown sets it to
  \<open>null + 1 = 1\<close>: the invariant holds before the key and not after it.
\<close>

theorem focus_invariant_broken_on_empty_file:
  "focus_invariant (search (two_files (Some 1) None)) \<and>
   \<not> focus_invariant (search (keyDown editorCache document ArrowRight (two_files (Some 1) None))) \<and>
   \<not> focus_invariant (search (keyDown editorCache document ArrowDown (two_files (Some 1) None)))"
proof -
  have f: "focusedIndex (search (two_files (Some 1) None)) = Some 1"
    by (simp add: two_files_def)
  have n: "js_nth (files (search (two_files (Some 1) None))) 1 = Some (js ''2'', ex_b)"
    by (simp add: ex_defs)
  show ?thesis
    unfolding keyDown_search [OF f n]
    by (simp add: focus_invariant_def key_switch_def setSearchFocusedIndex_def ToNumber_def ex_defs)
qed

subsection \<open>The boundaries of the tree\<close>

lemma arrow_up_top_boundary:
  assumes "focusedIndex (search st) = Some 0" and "focusedChildIndex (search st) = None"
    and "js_nth (files (search st)) 0 = Some (fileId, file)"
  shows "keyDown editorCache document ArrowUp st = st"
  using assms by (simp add: keyDown_search [OF assms(1,3)] key_switch_def)

lemma arrow_down_bottom_boundary:
  assumes "focusedIndex (search st) = Some (int (length (files (search st))) - 1)"
    and "js_nth (files (search st)) (int (length (files (search st))) - 1) = Some (fileId, file)"
    and "focusedChildIndex (search st) = Some (int (length (matches file)) - 1)"
  shows "keyDown editorCache document ArrowDown st = st"
  using assms by (simp add: keyDown_search [OF assms(1,2)] key_switch_def)

text \<open>
  C3: no wraparound at the two ends of the tree. ArrowUp on the first heading and
  ArrowDown on the last match of the last file change nothing (the two lemmas above).
  On the heading of the last visible file, when that file has no match, ArrowDown should
  change nothing either; the code moves the focus to the child index \<open>null + 1 = 1\<close>.
\<close>

theorem arrow_down_on_last_empty_heading:
  "focusedIndex (search (two_files (Some 1) None)) = Some (int (length (files (search (two_files (Some 1) None)))) - 1) \<and>
   js_nth (files (search (two_files (Some 1) None))) 1 = Some (js ''2'', ex_b) \<and>
   matches ex_b = [] \<and>
   keyDown editorCache document ArrowDown (two_files (Some 1) None) = two_files (Some 1) (Some 1)"
proof -
  have f: "focusedIndex (search (two_files (Some 1) None)) = Some 1"
    by (simp add: two_files_def)
  have n: "js_nth (files (search (two_files (Some 1) None))) 1 = Some (js ''2'', ex_b)"
    by (simp add: ex_defs)
  show ?thesis
    unfolding keyDown_search [OF f n]
    by (simp add: key_switch_def setSearchFocusedIndex_def ToNumber_def ex_defs)
qed

subsection \<open>Down and up again\<close>

lemma files_setSearchFocusedIndex: "files (setSearchFocusedIndex i c s) = files s"
  by (simp add: files_def setSearchFocusedIndex_def)

text \<open>
  C10: on the heading of a visible file with at least one match, ArrowDown enters the
  first match and ArrowUp then returns to the heading: the session is as it was.
\<close>

theorem arrow_down_then_up:
  assumes "focusedIndex (search st) = Some i" and "focusedChildIndex (search st) = None"
    and "js_nth (files (search st)) i = Some (fileId, file)" and "matches file \<noteq> []"
  shows "focusedIndex (search (keyDown editorCache document ArrowDown st)) = Some i \<and>
         focusedChildIndex (search (keyDown editorCache document ArrowDown st)) = Some 0 \<and>
         keyDown editorCache' document' ArrowUp (keyDown editorCache document ArrowDown st) = st"
proof -
  let ?st' = "st\<lparr>search := setSearchFocusedIndex (Some i) (Some 0) (search st)\<rparr>"
  have down: "keyDown editorCache document ArrowDown st = ?st'"
    using assms(2,4) by (simp add: keyDown_search [OF assms(1,3)] key_switch_def)
  have f': "focusedIndex (search ?st') = Some i"
    by (simp add: setSearchFocusedIndex_def)
  have n': "js_nth (files (search ?st')) i = Some (fileId, file)"
    using assms(3) by (simp add: files_setSearchFocusedIndex)
  have "keyDown editorCache' document' ArrowUp ?st'
          = st\<lparr>search := (search st)\<lparr>focusedIndex := Some i, focusedChildIndex := None\<rparr>\<rparr>"
    unfolding keyDown_search [OF f' n']
    by (simp add: key_switch_def setSearchFocusedIndex_def)
  also have "\<dots> = st"
    using assms(1,2) by simp
  finally have up: "keyDown editorCache' document' ArrowUp ?st' = st" .
  show ?thesis
    unfolding down up by (simp add: setSearchFocusedIndex_def)
qed

theorem arrow_down_then_up_witness:
  "focusedIndex (search (keyDown (\<lambda>_. None) (\<lambda>_. None) ArrowDown (two_files (Some 0) None))) = Some 0 \<and>
   focusedChildIndex (search (keyDown (\<lambda>_. None) (\<lambda>_. None) ArrowDown (two_files (Some 0) None))) = Some 0 \<and>
   keyDown (\<lambda>_. None) (\<lambda>_. None) ArrowUp
     (keyDown (\<lambda>_. None) (\<lambda>_. None) ArrowDown (two_files (Some 0) None))
     = two_files (Some 0) None"
proof -
  have f: "focusedIndex (search (two_files (Some 0) None)) = Some 0"
    and c: "focusedChildIndex (search (two_files (Some 0) None)) = None"
    by (simp_all add: two_files_def)
  have n: "js_nth (files (search (two_files (Some 0) None))) 0 = Some (js ''1'', ex_a)"
    by (simp add: ex_defs)
  have m: "matches ex_a \<noteq> []" by (simp add: ex_a_def)
  show ?thesis
    by (rule arrow_down_then_up [OF f c n m])
qed

subsection \<open>ArrowLeft and the visibility\<close>

text \<open>
  C8, as the spec states it, makes ArrowLeft the only key that writes a visibility. On the
  heading of a flattened file ArrowRight writes one: it opens the file.
\<close>

theorem arrow_right_opens_flattened_file:
  "filter is_visibility_effect
     (fst (handleKeyDown (\<lambda>_. None) (\<lambda>_. None) flattened_file ArrowRight))
   = [SetSearchFileVisibility (js ''1'') Open (Some (js ''a.ts''))]"
  by (simp add: handleKeyDown_def key_switch_def viewport_sync_def flattenResult_def
        flattened_file_def ex_a_def files_def js_nth_def is_visibility_effect_def)

lemma viewport_sync_effects:
  "viewport_sync document s fileId file = (effs, err) \<Longrightarrow>
   filter is_visibility_effect effs = [] \<and> filter is_focus_effect effs = [] \<and>
   filter is_dispatch_effect effs = []"
  by (auto simp: viewport_sync_def scroll_unless_within_view_def is_visibility_effect_def
        is_focus_effect_def is_dispatch_effect_def split: option.splits sum.splits if_splits)

lemma handleKeyDown_effects:
  assumes "focusedIndex s = Some fi" and "js_nth (files s) fi = Some (fileId, file)"
    and "P = is_visibility_effect \<or> P = is_focus_effect \<or> P = is_dispatch_effect"
  shows "filter P (fst (handleKeyDown editorCache document s k))
         = filter P (fst (key_switch editorCache s fi fileId file k))"
  using assms viewport_sync_effects [of document s fileId "file"]
  by (auto simp: handleKeyDown_def is_visibility_effect_def is_focus_effect_def
        is_dispatch_effect_def split: prod.splits option.splits)

lemma activate_no_visibility:
  "filter is_visibility_effect (fst (activate editorCache s fileId file)) = []"
  by (simp add: activate_def is_visibility_effect_def split: option.splits sum.splits)

text \<open>
  C8, amended: on a focused match ArrowLeft moves the focus to the heading of the file and
  writes no visibility; on the heading of an open file it writes \<open>flattened\<close> for that
  file; ArrowRight on a file that is not open writes \<open>open\<close> for it, and on an open file
  writes no visibility; and no key other than ArrowLeft and ArrowRight writes a
  visibility.
\<close>

theorem arrow_left_visibility:
  assumes "focusedIndex s = Some fi" and "js_nth (files s) fi = Some (fileId, file)"
  shows "(focusedChildIndex s \<noteq> None \<longrightarrow>
            filter is_visibility_effect (fst (handleKeyDown editorCache document s ArrowLeft)) = [] \<and>
            filter is_focus_effect (fst (handleKeyDown editorCache document s ArrowLeft))
              = [SetSearchFocusedIndex (Some fi) None]) \<and>
         (focusedChildIndex s = None \<and> visibility file = Open \<longrightarrow>
            filter is_visibility_effect (fst (handleKeyDown editorCache document s ArrowLeft))
              = [SetSearchFileVisibility fileId Flattened (Some (name file))]) \<and>
         (visibility file \<noteq> Open \<longrightarrow>
            filter is_visibility_effect (fst (handleKeyDown editorCache document s ArrowRight))
              = [SetSearchFileVisibility fileId Open (Some (name file))]) \<and>
         (visibility file = Open \<longrightarrow>
            filter is_visibility_effect (fst (handleKeyDown editorCache document s ArrowRight)) = []) \<and>
         (k \<noteq> ArrowLeft \<and> k \<noteq> ArrowRight \<longrightarrow>
            filter is_visibility_effect (fst (handleKeyDown editorCache document s k)) = [])"
proof -
  have "filter is_visibility_effect (fst (key_switch editorCache s fi fileId file k)) = []"
    if "k \<noteq> ArrowLeft" "k \<noteq> ArrowRight"
    using that activate_no_visibility [of editorCache s fileId "file"]
    by (cases k) (simp_all add: key_switch_def is_visibility_effect_def Let_def split: option.splits)
  then show ?thesis
    by (simp add: handleKeyDown_effects [OF assms] key_switch_def flattenResult_def
          is_visibility_effect_def is_focus_effect_def)
qed

theorem arrow_left_visibility_witness:
  "filter is_visibility_effect
     (fst (handleKeyDown no_editor no_page (search (two_files (Some 0) (Some 1))) ArrowLeft)) = [] \<and>
   filter is_focus_effect
     (fst (handleKeyDown no_editor no_page (search (two_files (Some 0) (Some 1))) ArrowLeft))
     = [SetSearchFocusedIndex (Some 0) None] \<and>
   filter is_visibility_effect
     (fst (handleKeyDown no_editor no_page (search (two_files (Some 0) None)) ArrowLeft))
     = [SetSearchFileVisibility (js ''1'') Flattened (Some (js ''a.ts''))] \<and>
   filter is_visibility_effect
     (fst (handleKeyDown no_editor no_page flattened_file ArrowRight))
     = [SetSearchFileVisibility (js ''1'') Open (Some (js ''a.ts''))] \<and>
   filter is_visibility_effect
     (fst (handleKeyDown no_editor no_page (search (two_files (Some 0) None)) ArrowRight)) = [] \<and>
   filter is_visibility_effect
     (fst (handleKeyDown no_editor no_page (search (two_files (Some 0) None)) ArrowDown)) = []"
proof -
  have f: "focusedIndex (search (two_files (Some 0) c)) = Some 0" for c
    by (simp add: two_files_def)
  have n: "js_nth (files (search (two_files (Some 0) c))) 0 = Some (js ''1'', ex_a)" for c
    by (simp add: ex_defs)
  have f': "focusedIndex flattened_file = Some 0"
    by (simp add: flattened_file_def)
  have n': "js_nth (files flattened_file) 0 = Some (js ''1'', ex_a\<lparr>visibility := Flattened\<rparr>)"
    by (simp add: flattened_file_def files_def js_nth_def)
  show ?thesis
    using arrow_left_visibility [OF f n, of "Some 1" no_editor no_page ArrowDown]
      arrow_left_visibility [OF f n, of None no_editor no_page ArrowDown]
      arrow_left_visibility [OF f' n', of no_editor no_page ArrowDown]
    by (simp add: two_files_def ex_a_def)
qed

subsection \<open>Activation\<close>

text \<open>
  Enter and Space on a session whose focus satisfies the invariant. When the file has no
  editor, the handler sets the active file, dispatches nothing and does not throw in the
  activation: what follows is the scrolling of the results list alone. When the file has
  an editor and a match is focused, what the handler does is what \<open>jumpToPattern\<close> does
  on that editor with the pattern and that match's line and index. The active file is set
  in both cases.
\<close>

lemma activation_valid_focus:
  assumes "focusedIndex (search st) = Some fi"
    and "js_nth (files (search st)) fi = Some (fileId, file)"
    and "focus_invariant (search st)"
    and "k = Enter \<or> k = Space"
  shows "(editorCache fileId = None \<longrightarrow>
            handleKeyDown editorCache document (search st) k
              = (PreventDefault # SetActiveFileId fileId # fst (viewport_sync document (search st) fileId file),
                 snd (viewport_sync document (search st) fileId file))) \<and>
         (\<forall>editor c m.
            editorCache fileId = Some editor \<and> focusedChildIndex (search st) = Some c \<and>
            js_nth (matches file) c = Some m \<longrightarrow>
            handleKeyDown editorCache document (search st) k
              = (case jumpToPattern editor (pattern (search st)) (line m) (index m) of
                   Inl e \<Rightarrow> ([PreventDefault, SetActiveFileId fileId], Some e)
                 | Inr tr \<Rightarrow>
                     (PreventDefault # SetActiveFileId fileId # EditorDispatch fileId tr
                        # fst (viewport_sync document (search st) fileId file),
                      snd (viewport_sync document (search st) fileId file)))) \<and>
         activeFileId (keyDown editorCache document k st) = Some fileId"
proof -
  have sw: "key_switch editorCache (search st) fi fileId file k
            = activate editorCache (search st) fileId file"
    using assms(4) by (auto simp: key_switch_def)
  have valid: "js_nth (matches file) c \<noteq> None" if "focusedChildIndex (search st) = Some c" for c
    using assms(1-3) that by (simp add: focus_invariant_def js_nth_def)
  have a: "editorCache fileId = None \<Longrightarrow>
           activate editorCache (search st) fileId file = ([SetActiveFileId fileId], None)"
    using valid by (auto simp: activate_def split: option.splits)
  have b: "activate editorCache (search st) fileId file
           = (case jumpToPattern editor (pattern (search st)) (line m) (index m) of
                Inl e \<Rightarrow> ([SetActiveFileId fileId], Some e)
              | Inr tr \<Rightarrow> ([SetActiveFileId fileId, EditorDispatch fileId tr], None))"
    if "editorCache fileId = Some editor" "focusedChildIndex (search st) = Some c"
       "js_nth (matches file) c = Some m" for editor c m
    using that by (simp add: activate_def)
  have hd: "\<exists>rest. fst (activate editorCache (search st) fileId file) = SetActiveFileId fileId # rest
              \<and> (\<forall>e \<in> set rest. is_dispatch_effect e)"
    by (auto simp: activate_def is_dispatch_effect_def split: option.splits sum.splits)
  have act: "activeFileId (fold apply_effect effs st') = activeFileId st'"
    if "\<forall>e \<in> set effs. is_dispatch_effect e" for effs st'
    using that by (induction effs arbitrary: st') (auto simp: is_dispatch_effect_def split: effect.splits)
  have c: "activeFileId (keyDown editorCache document k st) = Some fileId"
    unfolding keyDown_search [OF assms(1,2)] sw
    using hd act by auto
  show ?thesis
    using a b c
    by (auto simp: handleKeyDown_def assms(1,2) sw split: sum.splits prod.splits)
qed

text \<open>
  C9: Enter or Space on a file that has no editor should set the active file, jump
  nowhere and never throw. The handler reads \<open>matches[focusedChildIndex].line\<close> before it
  asks for the editor. On the heading of \<open>b.ts\<close>, which has no match, ArrowRight leaves
  the focus at the child index 0; Enter then sets the active file and ends in a
  TypeError, with no editor open. With a focus that satisfies the invariant the
  activation itself does not throw (the lemma above).
\<close>

theorem activation_throws_on_stale_focus:
  "keyDown no_editor document ArrowRight (two_files (Some 1) None) = two_files (Some 1) (Some 0) \<and>
   no_editor (js ''2'') = None \<and>
   handleKeyDown no_editor document' (search (two_files (Some 1) (Some 0))) Enter
     = ([PreventDefault, SetActiveFileId (js ''2'')], Some TypeError) \<and>
   handleKeyDown no_editor document' (search (two_files (Some 1) (Some 0))) Space
     = ([PreventDefault, SetActiveFileId (js ''2'')], Some TypeError)"
proof -
  have f: "focusedIndex (search (two_files (Some 1) None)) = Some 1"
    by (simp add: two_files_def)
  have n: "js_nth (files (search (two_files (Some 1) None))) 1 = Some (js ''2'', ex_b)"
    by (simp add: ex_defs)
  have 1: "keyDown no_editor document ArrowRight (two_files (Some 1) None) = two_files (Some 1) (Some 0)"
    unfolding keyDown_search [OF f n]
    by (simp add: key_switch_def setSearchFocusedIndex_def ex_defs)
  have 2: "handleKeyDown no_editor document' (search (two_files (Some 1) (Some 0))) k
           = ([PreventDefault, SetActiveFileId (js ''2'')], Some TypeError)"
    if "k = Enter \<or> k = Space" for k
    using that by (auto simp: handleKeyDown_def key_switch_def activate_def ex_defs)
  from 1 2 show ?thesis by (simp add: no_editor_def)
qed

subsection \<open>Closing a file\<close>

lemma take_filter_key:
  assumes "distinct (map fst xs)" and "i < length xs" and "fst (xs ! i) = k"
  shows "take i (filter (\<lambda>(k', _). k' \<noteq> k) xs) = take i xs"
proof -
  have xs: "xs = take i xs @ xs ! i # drop (Suc i) xs"
    using assms(2) by (simp add: id_take_nth_drop)
  have "\<forall>x \<in> set (take i xs). fst x \<noteq> k"
  proof
    fix x assume "x \<in> set (take i xs)"
    then obtain j where j: "j < i" "x = xs ! j"
      using assms(2) by (auto simp: in_set_conv_nth)
    with assms show "fst x \<noteq> k"
      by (metis (no_types, lifting) distinct_conv_nth length_map nth_map less_trans nat_neq_iff)
  qed
  then have "filter (\<lambda>(k', _). k' \<noteq> k) (take i xs) = take i xs"
    by (auto simp: filter_id_conv)
  then have "filter (\<lambda>(k', _). k' \<noteq> k) xs
             = take i xs @ filter (\<lambda>(k', _). k' \<noteq> k) (xs ! i # drop (Suc i) xs)"
    by (subst xs) simp
  then show ?thesis
    using assms(2) by simp
qed

lemma filter_visible_close:
  "filter (\<lambda>(_, file). visibility file \<noteq> Closed)
     (map (\<lambda>(k, file). if k = fileId then (k, file\<lparr>visibility := Closed\<rparr>) else (k, file)) xs)
   = filter (\<lambda>(k, _). k \<noteq> fileId) (filter (\<lambda>(_, file). visibility file \<noteq> Closed) xs)"
  by (induction xs) auto

lemma files_setSearchFileVisibility_Closed:
  "files (setSearchFileVisibility fileId Closed s) = filter (\<lambda>(k, _). k \<noteq> fileId) (files s)"
  by (simp add: files_def setSearchFileVisibility_def Let_def filter_visible_close)

lemma data_setSearchFileVisibility:
  "map (\<lambda>(k, file). (k, name file, matches file)) (results (setSearchFileVisibility fileId v s))
   = map (\<lambda>(k, file). (k, name file, matches file)) (results s)"
  by (auto simp: setSearchFileVisibility_def Let_def)

text \<open>
  C4: \<open>closeResult\<close> writes \<open>closed\<close> for the file. The file leaves the visible files and
  every result keeps its name and matches. When the focus pointed at the file, at the
  index \<open>i\<close>, the focus becomes the heading of the previous visible file, which is the
  visible file at \<open>i - 1\<close> as it was before, or nothing when \<open>i = 0\<close>. The keys of
  \<open>results\<close> are distinct, as those of a JavaScript object are.
\<close>

theorem closing_a_file:
  assumes "distinct (map fst (results (search st)))"
  shows "files (search (apply_effect (closeResult fileId) st))
           = filter (\<lambda>(k, _). k \<noteq> fileId) (files (search st)) \<and>
         map (\<lambda>(k, file). (k, name file, matches file)) (results (search (apply_effect (closeResult fileId) st)))
           = map (\<lambda>(k, file). (k, name file, matches file)) (results (search st)) \<and>
         (\<forall>i. focusedIndex (search st) = Some i \<and> focus_points_at (search st) fileId \<longrightarrow>
            focusedChildIndex (search (apply_effect (closeResult fileId) st)) = None \<and>
            (if i = 0 then focusedIndex (search (apply_effect (closeResult fileId) st)) = None
             else focusedIndex (search (apply_effect (closeResult fileId) st)) = Some (i - 1) \<and>
                  js_nth (files (search (apply_effect (closeResult fileId) st))) (i - 1)
                    = js_nth (files (search st)) (i - 1)))"
proof -
  define s where "s = search st"
  define s' where "s' = search (apply_effect (closeResult fileId) st)"
  have s': "s' = setSearchFileVisibility fileId Closed s"
    by (simp add: s'_def s_def closeResult_def)
  have 1: "files s' = filter (\<lambda>(k, _). k \<noteq> fileId) (files s)"
    by (simp add: s' files_setSearchFileVisibility_Closed)
  have 2: "map (\<lambda>(k, file). (k, name file, matches file)) (results s')
           = map (\<lambda>(k, file). (k, name file, matches file)) (results s)"
    by (simp add: s' data_setSearchFileVisibility)
  have d: "distinct (map fst (files s))"
    using assms by (simp add: s_def files_def distinct_map_filter)
  have 3: "focusedChildIndex s' = None \<and>
           (if i = 0 then focusedIndex s' = None
            else focusedIndex s' = Some (i - 1) \<and> js_nth (files s') (i - 1) = js_nth (files s) (i - 1))"
    if i: "focusedIndex s = Some i" and p: "focus_points_at s fileId" for i
  proof -
    from i p have r: "0 \<le> i" "nat i < length (files s)" "fst (files s ! nat i) = fileId"
      by (auto simp: focus_points_at_def js_nth_def split: option.splits if_splits)
    have t: "take (nat i) (files s') = take (nat i) (files s)"
      unfolding 1 using take_filter_key [OF d r(2,3)] .
    have foc: "focusedChildIndex s' = None"
      "focusedIndex s' = (if i = 0 then None else Some (i - 1))"
      using i p by (simp_all add: s' setSearchFileVisibility_def Let_def)
    have "js_nth (files s') (i - 1) = js_nth (files s) (i - 1)" if "i \<noteq> 0"
    proof -
      from that r(1) have lt: "nat (i - 1) < nat i" by simp
      have "length (take (nat i) (files s')) = nat i"
        using r(2) by (simp add: t)
      then have l: "nat i \<le> length (files s')" by simp
      have "files s' ! nat (i - 1) = take (nat i) (files s') ! nat (i - 1)"
        using lt by simp
      also have "\<dots> = files s ! nat (i - 1)"
        using lt by (simp add: t)
      finally show ?thesis
        using l r lt that by (auto simp: js_nth_def)
    qed
    with foc show ?thesis by simp
  qed
  from 1 2 3 show ?thesis unfolding s_def s'_def by blast
qed

theorem closing_a_file_witness:
  "distinct (map fst (results (search (two_files (Some 1) None)))) \<and>
   focus_points_at (search (two_files (Some 1) None)) (js ''2'') \<and>
   files (search (apply_effect (closeResult (js ''2'')) (two_files (Some 1) None))) = [(js ''1'', ex_a)] \<and>
   focusedIndex (search (apply_effect (closeResult (js ''2'')) (two_files (Some 1) None))) = Some 0 \<and>
   focusedChildIndex (search (apply_effect (closeResult (js ''2'')) (two_files (Some 1) None))) = None \<and>
   map (\<lambda>(k, file). (k, matches file))
     (results (search (apply_effect (closeResult (js ''2'')) (two_files (Some 1) None))))
     = [(js ''1'', matches ex_a), (js ''2'', [])]"
proof -
  have d: "distinct (map fst (results (search (two_files (Some 1) None))))"
    by (simp add: two_files_def js_def)
  have p: "focus_points_at (search (two_files (Some 1) None)) (js ''2'')"
    by (simp add: focus_points_at_def ex_defs)
  have f: "focusedIndex (search (two_files (Some 1) None)) = Some 1"
    by (simp add: two_files_def)
  have fs: "files (search (two_files (Some 1) None)) = [(js ''1'', ex_a), (js ''2'', ex_b)]"
    by (simp add: ex_defs)
  have m: "map (\<lambda>(k, file). (k, matches file))
             (results (search (apply_effect (closeResult (js ''2'')) (two_files (Some 1) None))))
           = [(js ''1'', matches ex_a), (js ''2'', [])]"
    by (simp add: closeResult_def setSearchFileVisibility_def Let_def two_files_def ex_b_def js_def)
  from closing_a_file [OF d, of "js ''2''"] f p fs
  have "files (search (apply_effect (closeResult (js ''2'')) (two_files (Some 1) None))) = [(js ''1'', ex_a)]"
    and "focusedIndex (search (apply_effect (closeResult (js ''2'')) (two_files (Some 1) None))) = Some 0"
    and "focusedChildIndex (search (apply_effect (closeResult (js ''2'')) (two_files (Some 1) None))) = None"
    by (simp_all add: js_def)
  with d p m show ?thesis by simp
qed

subsection \<open>The jump\<close>

lemma int_offset:
  "sum_list (map (\<lambda>l. int (length l) + 1) ls) = int (sum_list (map (\<lambda>l. length l + 1) ls))"
  by (induction ls) simp_all

lemma doc_text_Cons: "ls \<noteq> [] \<Longrightarrow> doc_text (l # ls) = l @ 0x0A # doc_text ls"
  by (cases ls) simp_all

lemma doc_text_split:
  "n < length d \<Longrightarrow>
   \<exists>pre rest. doc_text d = pre @ d ! n @ rest \<and>
              length pre = sum_list (map (\<lambda>l. length l + 1) (take n d))"
proof (induction d arbitrary: n)
  case Nil
  then show ?case by simp
next
  case (Cons l ls)
  show ?case
  proof (cases n)
    case 0
    have "\<exists>rest. doc_text (l # ls) = l @ rest"
      by (cases ls) simp_all
    with 0 show ?thesis by simp
  next
    case (Suc m)
    with Cons.prems have m: "m < length ls" by simp
    then have ne: "ls \<noteq> []" by auto
    from Cons.IH [OF m] obtain pre rest
      where ih: "doc_text ls = pre @ ls ! m @ rest"
        "length pre = sum_list (map (\<lambda>l. length l + 1) (take m ls))"
      by blast
    have "doc_text (l # ls) = (l @ 0x0A # pre) @ (l # ls) ! n @ rest"
      using ih(1) Suc by (simp add: doc_text_Cons [OF ne])
    moreover have "length (l @ 0x0A # pre) = sum_list (map (\<lambda>l. length l + 1) (take n (l # ls)))"
      using ih(2) Suc by simp
    ultimately show ?thesis by blast
  qed
qed

text \<open>
  C7: for a match at the line \<open>L\<close> of the editor's document and the column \<open>c\<close>, with
  \<open>start\<close> the offset of the line's first character and \<open>k\<close> the length of the pattern.
  When \<open>start + c + k\<close> is within the document, \<open>jumpToPattern\<close> has the editor select from
  \<open>start + c\<close> to \<open>start + c + k\<close> and scroll \<open>start + c\<close> to the vertical centre; when it is
  not (results older than the document), \<open>dispatch\<close> throws a RangeError and nothing is
  selected. A match that lies in its line, columns \<open>c\<close> to \<open>c + k\<close>, is within the document,
  and the selected text of the document is the text of those columns. For line 3, index 5
  and the pattern \<open>bar\<close> the selection is from column 5 to column 8 of line 3.
\<close>

theorem jump_correct:
  assumes "1 \<le> L" and "L \<le> int (length d)" and "0 \<le> c"
  shows "\<exists>start. line_from d L = Inr start \<and> 0 \<le> start \<and>
           jumpToPattern \<lparr>doc = d\<rparr> pat L c
             = (if start + c + int (length pat) \<le> int (length (doc_text d))
                then Inr \<lparr>selection = \<lparr>anchor = start + c, head = start + c + int (length pat)\<rparr>,
                          scrollIntoView = True,
                          effects = ScrollIntoViewEffect (start + c) YCenter\<rparr>
                else Inl RangeError) \<and>
           (c + int (length pat) \<le> int (length (d ! nat (L - 1))) \<longrightarrow>
              start + c + int (length pat) \<le> int (length (doc_text d)) \<and>
              take (length pat) (drop (nat (start + c)) (doc_text d))
                = take (length pat) (drop (nat c) (d ! nat (L - 1))))"
proof -
  define n where "n = nat (L - 1)"
  define off where "off = sum_list (map (\<lambda>l. length l + 1) (take n d))"
  have n: "n < length d" using assms by (simp add: n_def)
  have lf: "line_from d L = Inr (int off)"
    using assms by (simp add: line_from_def int_offset off_def n_def)
  obtain pre rest where split: "doc_text d = pre @ d ! n @ rest" and pre: "length pre = off"
    using doc_text_split [OF n] unfolding off_def by blast
  have jump: "jumpToPattern \<lparr>doc = d\<rparr> pat L c
             = (if int off + c + int (length pat) \<le> int (length (doc_text d))
                then Inr \<lparr>selection = \<lparr>anchor = int off + c, head = int off + c + int (length pat)\<rparr>,
                          scrollIntoView = True,
                          effects = ScrollIntoViewEffect (int off + c) YCenter\<rparr>
                else Inl RangeError)"
    by (simp add: jumpToPattern_def lf dispatch_def Let_def max_def)
  have sel: "int off + c + int (length pat) \<le> int (length (doc_text d)) \<and>
             take (length pat) (drop (nat (int off + c)) (doc_text d))
               = take (length pat) (drop (nat c) (d ! n))"
    if "c + int (length pat) \<le> int (length (d ! n))"
  proof -
    have "nat (int off + c) = length pre + nat c"
      using assms(3) by (simp add: pre nat_add_distrib)
    then have "drop (nat (int off + c)) (doc_text d) = drop (nat c) (d ! n @ rest)"
      by (simp add: split)
    also have "\<dots> = drop (nat c) (d ! n) @ rest"
      using that assms(3) by simp
    finally have "take (length pat) (drop (nat (int off + c)) (doc_text d))
                  = take (length pat) (drop (nat c) (d ! n))"
      using that assms(3) by simp
    moreover have "int off + c + int (length pat) \<le> int (length (doc_text d))"
      using that by (simp add: split pre)
    ultimately show ?thesis by simp
  qed
  show ?thesis
    using lf jump sel by (auto simp: n_def)
qed

theorem jump_correct_witness:
  "(1::int) \<le> 3 \<and> 3 \<le> int (length [js ''x'', js '''', js ''foo bar baz'']) \<and>
   line_from [js ''x'', js '''', js ''foo bar baz''] 3 = Inr 3 \<and>
   length (doc_text [js ''x'', js '''', js ''foo bar baz'']) = 14 \<and>
   jumpToPattern \<lparr>doc = [js ''x'', js '''', js ''foo bar baz'']\<rparr> (js ''bar'') 3 5
     = Inr \<lparr>selection = \<lparr>anchor = 8, head = 11\<rparr>, scrollIntoView = True,
            effects = ScrollIntoViewEffect 8 YCenter\<rparr> \<and>
   take 3 (drop 8 (doc_text [js ''x'', js '''', js ''foo bar baz''])) = take 3 (drop 5 (js ''foo bar baz'')) \<and>
   jumpToPattern \<lparr>doc = [js ''x'', js '''', js ''foo bar baz'']\<rparr> (js ''bar'') 3 10 = Inl RangeError"
proof -
  have a: "(1::int) \<le> 3" and b: "3 \<le> int (length [js ''x'', js '''', js ''foo bar baz''])"
    by simp_all
  have lf: "line_from [js ''x'', js '''', js ''foo bar baz''] 3 = Inr 3"
    by (simp add: line_from_def js_def)
  have len: "length (doc_text [js ''x'', js '''', js ''foo bar baz'']) = 14"
    by (simp add: js_def)
  from jump_correct [OF a b, of 5 "js ''bar''"] lf len
  have 1: "jumpToPattern \<lparr>doc = [js ''x'', js '''', js ''foo bar baz'']\<rparr> (js ''bar'') 3 5
     = Inr \<lparr>selection = \<lparr>anchor = 8, head = 11\<rparr>, scrollIntoView = True,
            effects = ScrollIntoViewEffect 8 YCenter\<rparr>"
    and 2: "take 3 (drop 8 (doc_text [js ''x'', js '''', js ''foo bar baz''])) = take 3 (drop 5 (js ''foo bar baz''))"
    by (simp_all add: js_def)
  from jump_correct [OF a b, of 10 "js ''bar''"] lf len
  have 3: "jumpToPattern \<lparr>doc = [js ''x'', js '''', js ''foo bar baz'']\<rparr> (js ''bar'') 3 10 = Inl RangeError"
    by (simp add: js_def)
  from a b lf len 1 2 3 show ?thesis by blast
qed

subsection \<open>The debounced search\<close>

lemma nonblank: "(Suc 0 \<le> length xs) = (xs \<noteq> [])"
  by (cases xs) simp_all

lemma trigger_inv_mount: "trigger_inv (mount p)"
  by (simp add: trigger_inv_def mount_def run_effect_def first_render_def)

lemma timers_run_cleanup:
  "trigger_inv t \<Longrightarrow> timers (run_cleanup t) = []"
  by (auto simp: trigger_inv_def run_cleanup_def clearTimeout_def split: option.splits)

lemma setSearch_changed:
  assumes "trigger_inv t" and "p \<noteq> storePattern t"
  shows "setSearch p t =
           t\<lparr>storePattern := p, isSearching := (trim p \<noteq> []), timers := [(nextTimer t, p)],
             cleanup := Some (nextTimer t), nextTimer := nextTimer t + 1\<rparr>"
proof -
  have "timers (run_cleanup t) = []"
    using assms(1) by (rule timers_run_cleanup)
  moreover have "isMounted t" using assms(1) by (simp add: trigger_inv_def)
  ultimately show ?thesis
    using assms(2)
    by (cases "cleanup t")
       (simp_all add: setSearch_def run_effect_def run_cleanup_def clearTimeout_def nonblank)
qed

lemma trigger_inv_setSearch: "trigger_inv t \<Longrightarrow> trigger_inv (setSearch p t)"
proof (cases "p = storePattern t")
  case True
  assume "trigger_inv t"
  with True show ?thesis by (simp add: setSearch_def)
next
  case False
  assume i: "trigger_inv t"
  show ?thesis
    unfolding setSearch_changed [OF i False]
    using i by (simp add: trigger_inv_def)
qed

lemma timer_fires_pending:
  assumes "trigger_inv t" and "timers t = [(i, p)]"
  shows "timer_fires i t =
           (if trim p \<noteq> [] then t\<lparr>timers := [], searches := searches t @ [p], isSearching := False\<rparr>
            else t\<lparr>timers := []\<rparr>)"
    and "j \<noteq> i \<Longrightarrow> timer_fires j t = t"
    and "p = storePattern t"
  using assms by (auto simp: timer_fires_def clearTimeout_def Let_def trigger_inv_def nonblank)

lemma timer_fires_none: "timers t = [] \<Longrightarrow> timer_fires j t = t"
  by (simp add: timer_fires_def)

lemma trigger_inv_timer_fires: "trigger_inv t \<Longrightarrow> trigger_inv (timer_fires i t)"
proof -
  assume inv: "trigger_inv t"
  then consider "timers t = []" | j where "timers t = [(j, storePattern t)]"
    by (auto simp: trigger_inv_def)
  then show ?thesis
  proof cases
    case 1
    with inv show ?thesis by (simp add: timer_fires_none)
  next
    case 2
    show ?thesis
    proof (cases "i = j")
      case True
      with inv 2 show ?thesis
        by (auto simp: timer_fires_pending(1) [OF inv 2] trigger_inv_def)
    next
      case False
      with inv 2 show ?thesis by (simp add: timer_fires_pending(2) [OF inv 2])
    qed
  qed
qed

lemma trigger_inv_step: "trigger_inv t \<Longrightarrow> trigger_inv (step e t)"
  by (cases e) (simp_all add: trigger_inv_setSearch trigger_inv_timer_fires)

lemma trigger_inv_run: "trigger_inv t \<Longrightarrow> trigger_inv (run evs t)"
  unfolding run_def by (induction evs arbitrary: t) (simp_all add: trigger_inv_step)

lemma run_append: "run (xs @ ys) t = run ys (run xs t)"
  by (simp add: run_def)

lemma run_timers_none: "timers t = [] \<Longrightarrow> run (map TimerFires ids) t = t"
  unfolding run_def by (induction ids) (simp_all add: timer_fires_none)

lemma run_timers_pending:
  assumes "trigger_inv t" and "timers t = [(i, p)]"
  shows "searches (run (map TimerFires ids) t)
         = (if i \<in> set ids \<and> trim p \<noteq> [] then searches t @ [p] else searches t)"
  using assms
proof (induction ids)
  case Nil
  then show ?case by (simp add: run_def)
next
  case (Cons j ids)
  show ?case
  proof (cases "j = i")
    case True
    have "run (map TimerFires (j # ids)) t = run (map TimerFires ids) (timer_fires i t)"
      using True by (simp add: run_def)
    also have "\<dots> = timer_fires i t"
      by (rule run_timers_none) (simp add: timer_fires_pending(1) [OF Cons.prems])
    finally show ?thesis
      using True by (simp add: timer_fires_pending(1) [OF Cons.prems])
  next
    case False
    then have "run (map TimerFires (j # ids)) t = run (map TimerFires ids) t"
      by (simp add: run_def timer_fires_pending(2) [OF Cons.prems])
    with Cons False show ?thesis by simp
  qed
qed

lemmas trigger_defs = run_def mount_def first_render_def setSearch_def run_effect_def
  run_cleanup_def clearTimeout_def timer_fires_def trim_def js_def

text \<open>
  C5, as the spec states it, promises one search for any three patterns entered in
  succession. When the last one is blank, none is run: here the user types \<open>fo\<close> and
  deletes it again.
\<close>

theorem debounce_blank_last_pattern:
  "searches (run [SetSearch (js ''fo''), SetSearch (js ''f''), SetSearch (js ''''),
                  TimerFires 0, TimerFires 1, TimerFires 2] (mount (js ''''))) = [] \<and>
   timers (run [SetSearch (js ''fo''), SetSearch (js ''f''), SetSearch (js ''''),
                TimerFires 0, TimerFires 1, TimerFires 2] (mount (js ''''))) = []"
  by (simp add: run_def mount_def first_render_def setSearch_def run_effect_def run_cleanup_def
        clearTimeout_def timer_fires_def trim_def js_def)

text \<open>
  C5, amended: in any state the mounted component reaches, let the pattern change to
  \<open>p1\<close>, then \<open>p2\<close>, then \<open>p3\<close>, with no timeout firing in between, and let \<open>p3\<close> not be
  blank. Then no search is run during the changes, one timeout is left, for \<open>p3\<close>, and
  whatever timeouts fire afterwards, the searches run are exactly one, for \<open>p3\<close>, once
  that timeout has fired. At every moment at most one timeout is outstanding.
\<close>

theorem debounce:
  assumes "t = run evs (mount p0)"
    and "p1 \<noteq> storePattern t"
    and "trim p3 \<noteq> []"
  shows "(\<exists>i. timers (run [SetSearch p1, SetSearch p2, SetSearch p3] t) = [(i, p3)] \<and>
             storePattern (run [SetSearch p1, SetSearch p2, SetSearch p3] t) = p3 \<and>
             searches (run [SetSearch p1, SetSearch p2, SetSearch p3] t) = searches t \<and>
             (\<forall>ids. searches (run ([SetSearch p1, SetSearch p2, SetSearch p3] @ map TimerFires ids) t)
                      = (if i \<in> set ids then searches t @ [p3] else searches t))) \<and>
         (\<forall>evs'. length (timers (run evs' t)) \<le> 1)"
proof -
  have inv: "trigger_inv t"
    using assms(1) by (simp add: trigger_inv_run trigger_inv_mount)
  define t1 where "t1 = setSearch p1 t"
  define t2 where "t2 = setSearch p2 t1"
  define t3 where "t3 = setSearch p3 t2"
  have r: "run [SetSearch p1, SetSearch p2, SetSearch p3] t = t3"
    by (simp add: run_def t1_def t2_def t3_def)
  have i1: "trigger_inv t1" and i2: "trigger_inv t2" and i3: "trigger_inv t3"
    using inv by (simp_all add: t1_def t2_def t3_def trigger_inv_setSearch)
  have 1: "storePattern t1 = p1 \<and> searches t1 = searches t \<and> (\<exists>i. timers t1 = [(i, p1)])"
    unfolding t1_def setSearch_changed [OF inv assms(2)] by simp
  have 2: "storePattern t2 = p2 \<and> searches t2 = searches t \<and> (\<exists>i. timers t2 = [(i, p2)])"
  proof (cases "p2 = storePattern t1")
    case True
    with 1 show ?thesis by (simp add: t2_def setSearch_def)
  next
    case False
    show ?thesis
      unfolding t2_def setSearch_changed [OF i1 False] using 1 by simp
  qed
  have 3: "storePattern t3 = p3 \<and> searches t3 = searches t \<and> (\<exists>i. timers t3 = [(i, p3)])"
  proof (cases "p3 = storePattern t2")
    case True
    with 2 show ?thesis by (simp add: t3_def setSearch_def)
  next
    case False
    show ?thesis
      unfolding t3_def setSearch_changed [OF i2 False] using 2 by simp
  qed
  then obtain i where i: "timers t3 = [(i, p3)]" by blast
  have "searches (run ([SetSearch p1, SetSearch p2, SetSearch p3] @ map TimerFires ids) t)
          = (if i \<in> set ids then searches t @ [p3] else searches t)" for ids
    unfolding run_append r
    using run_timers_pending [OF i3 i, of ids] assms(3) 3 by simp
  with 3 i
  have A: "\<exists>i. timers (run [SetSearch p1, SetSearch p2, SetSearch p3] t) = [(i, p3)] \<and>
             storePattern (run [SetSearch p1, SetSearch p2, SetSearch p3] t) = p3 \<and>
             searches (run [SetSearch p1, SetSearch p2, SetSearch p3] t) = searches t \<and>
             (\<forall>ids. searches (run ([SetSearch p1, SetSearch p2, SetSearch p3] @ map TimerFires ids) t)
                      = (if i \<in> set ids then searches t @ [p3] else searches t))"
    unfolding r by blast
  have B: "\<forall>evs'. length (timers (run evs' t)) \<le> 1"
  proof
    fix evs'
    have "trigger_inv (run evs' t)" using inv by (rule trigger_inv_run)
    then show "length (timers (run evs' t)) \<le> 1"
      by (auto simp: trigger_inv_def)
  qed
  from A B show ?thesis by blast
qed

theorem debounce_witness:
  "js ''f'' \<noteq> storePattern (run [] (mount (js ''''))) \<and> trim (js ''foo'') \<noteq> [] \<and>
   timers (run [SetSearch (js ''f''), SetSearch (js ''fo''), SetSearch (js ''foo'')] (run [] (mount (js ''''))))
     = [(2, js ''foo'')] \<and>
   searches (run ([SetSearch (js ''f''), SetSearch (js ''fo''), SetSearch (js ''foo'')]
                   @ map TimerFires [0, 1, 2, 2]) (run [] (mount (js ''''))))
     = [js ''foo''] \<and>
   length (timers (run [SetSearch (js ''f''), SetSearch (js ''fo'')] (run [] (mount (js ''''))))) \<le> 1"
proof -
  have a: "js ''f'' \<noteq> storePattern (run [] (mount (js '''')))"
    by (simp add: trigger_defs)
  have b: "trim (js ''foo'') \<noteq> []"
    by (simp add: trim_def js_def isWhiteSpace_def)
  have tm: "timers (run [SetSearch (js ''f''), SetSearch (js ''fo''), SetSearch (js ''foo'')]
                     (run [] (mount (js '''')))) = [(2, js ''foo'')]"
    by (simp add: trigger_defs)
  have s0: "searches (run [] (mount (js ''''))) = []"
    by (simp add: trigger_defs)
  from debounce [OF refl a b, of "js ''fo''"] tm s0
  have "searches (run ([SetSearch (js ''f''), SetSearch (js ''fo''), SetSearch (js ''foo'')]
                   @ map TimerFires ids) (run [] (mount (js ''''))))
          = (if 2 \<in> set ids then [js ''foo''] else [])" for ids
    by auto
  from this [of "[0, 1, 2, 2]"]
  have c: "searches (run ([SetSearch (js ''f''), SetSearch (js ''fo''), SetSearch (js ''foo'')]
                   @ map TimerFires [0, 1, 2, 2]) (run [] (mount (js '''')))) = [js ''foo'']"
    by simp
  from debounce [OF refl a b, of "js ''fo''"]
  have d: "length (timers (run [SetSearch (js ''f''), SetSearch (js ''fo'')] (run [] (mount (js ''''))))) \<le> 1"
    by blast
  from a b tm c d show ?thesis by blast
qed

text \<open>
  C6: for a blank pattern \<open>p\<close>, in any state the mounted component reaches: no search was
  ever run for \<open>p\<close>; once \<open>p\<close> is the pattern the component reports that it is not
  searching; and whatever timeouts fire afterwards, no search is run.
\<close>

theorem blank_pattern_never_searched:
  assumes "t = run evs (mount p0)" and "trim p = []"
  shows "p \<notin> set (searches t) \<and>
         \<not> isSearching (setSearch p t) \<and>
         (\<forall>ids. searches (run (SetSearch p # map TimerFires ids) t) = searches t)"
proof -
  have inv: "trigger_inv t"
    using assms(1) by (simp add: trigger_inv_run trigger_inv_mount)
  have inv': "trigger_inv (setSearch p t)"
    using inv by (rule trigger_inv_setSearch)
  have sp: "storePattern (setSearch p t) = p" and ss: "searches (setSearch p t) = searches t"
    using setSearch_changed [OF inv, of p] by (cases "p = storePattern t"; simp add: setSearch_def)+
  have a: "p \<notin> set (searches t)"
    using inv assms(2) by (auto simp: trigger_inv_def)
  have b: "\<not> isSearching (setSearch p t)"
    using inv' sp assms(2) by (auto simp: trigger_inv_def)
  have c: "searches (run (SetSearch p # map TimerFires ids) t) = searches t" for ids
  proof -
    have r: "run (SetSearch p # map TimerFires ids) t = run (map TimerFires ids) (setSearch p t)"
      by (simp add: run_def)
    from inv' consider "timers (setSearch p t) = []" | i where "timers (setSearch p t) = [(i, p)]"
      by (auto simp: trigger_inv_def sp)
    then show ?thesis
    proof cases
      case 1
      then show ?thesis by (simp add: r run_timers_none ss)
    next
      case 2
      show ?thesis
        unfolding r using run_timers_pending [OF inv' 2, of ids] assms(2) by (simp add: ss)
    qed
  qed
  from a b c show ?thesis by blast
qed

theorem blank_pattern_never_searched_witness:
  "trim (js '' '') = [] \<and>
   searches (run [SetSearch (js ''foo''), TimerFires 0] (mount (js ''''))) = [js ''foo''] \<and>
   \<not> isSearching (setSearch (js '' '') (run [SetSearch (js ''foo''), TimerFires 0] (mount (js '''')))) \<and>
   searches (run (SetSearch (js '' '') # map TimerFires [1, 0])
                 (run [SetSearch (js ''foo''), TimerFires 0] (mount (js ''''))))
     = [js ''foo'']"
proof -
  have a: "trim (js '' '') = []"
    by (simp add: trim_def js_def isWhiteSpace_def)
  have s: "searches (run [SetSearch (js ''foo''), TimerFires 0] (mount (js ''''))) = [js ''foo'']"
    by (simp add: trigger_defs isWhiteSpace_def)
  from blank_pattern_never_searched [OF refl a, of "[SetSearch (js ''foo''), TimerFires 0]" "js ''''"]
  have "\<not> isSearching (setSearch (js '' '') (run [SetSearch (js ''foo''), TimerFires 0] (mount (js ''''))))"
    and "searches (run (SetSearch (js '' '') # map TimerFires [1, 0])
                 (run [SetSearch (js ''foo''), TimerFires 0] (mount (js ''''))))
         = searches (run [SetSearch (js ''foo''), TimerFires 0] (mount (js '''')))"
    by blast+
  with a s show ?thesis by simp
qed

end
